theory Spec2Isabelle
  imports Complex_Main
begin

section \<open>Face search of the video editor (\<^verbatim>\<open>video_editor/face_search.py\<close>)\<close>

text \<open>
  The module has three functions: the generator of rotation hypotheses, the search for
  faces in one frame and the estimation of the orientation of a whole clip. OpenCV (the
  image operations, the cascade classifier and the video capture) is outside the module
  and enters the model as a record of its operations.

  Numbers: Python's \<open>int\<close> is \<open>int\<close>. Python's \<open>float\<close> is modelled by the real
  numbers. The floats of the module are halves of pixel coordinates, their sums, thirds
  of the frame dimensions and quotients by a number of faces; all are compared with
  integers or rounded to an integer, and neither the correctly rounded quotient nor the
  exact one can cross an integer or a half-integer that the other does not cross, as long
  as coordinates stay below \<open>2^31\<close> and counts below \<open>2^20\<close>.
\<close>

subsection \<open>Python values\<close>

datatype py_error =
  ValueError | IndexError | KeyError | StopIteration | ZeroDivisionError | AttributeError

text \<open>\<^verbatim>\<open>list.index\<close>: the position of the first occurrence, or \<open>ValueError\<close>.\<close>

fun list_index :: "int list \<Rightarrow> int \<Rightarrow> py_error + nat" where
  "list_index [] v = Inl ValueError"
| "list_index (x # xs) v =
     (if x = v then Inr 0
      else (case list_index xs v of Inl e \<Rightarrow> Inl e | Inr i \<Rightarrow> Inr (Suc i)))"

text \<open>A dictionary keeps the order of insertion: an association list. \<^verbatim>\<open>d[k]\<close>.\<close>

definition dict_get :: "('k \<times> 'v) list \<Rightarrow> 'k \<Rightarrow> py_error + 'v" where
  "dict_get d k = (case map_of d k of None \<Rightarrow> Inl KeyError | Some v \<Rightarrow> Inr v)"

text \<open>\<^verbatim>\<open>d[k].append(v)\<close>: the list stored under the first entry for \<open>k\<close> grows.\<close>

fun dict_append :: "('k \<times> 'v list) list \<Rightarrow> 'k \<Rightarrow> 'v \<Rightarrow> py_error + ('k \<times> 'v list) list" where
  "dict_append [] k v = Inl KeyError"
| "dict_append ((k', vs) # d) k v =
     (if k' = k then Inr ((k', vs @ [v]) # d)
      else (case dict_append d k v of Inl e \<Rightarrow> Inl e | Inr d' \<Rightarrow> Inr ((k', vs) # d')))"

text \<open>\<^verbatim>\<open>a / b\<close> on numbers: \<open>ZeroDivisionError\<close> when \<open>b\<close> is zero.\<close>

definition py_truediv :: "real \<Rightarrow> real \<Rightarrow> py_error + real" where
  "py_truediv a b = (if b = 0 then Inl ZeroDivisionError else Inr (a / b))"

text \<open>\<^verbatim>\<open>a % b\<close> on floats, for a positive \<open>b\<close>.\<close>

definition py_fmod :: "real \<Rightarrow> real \<Rightarrow> real" where
  "py_fmod a b = a - b * of_int \<lfloor>a / b\<rfloor>"

text \<open>\<^verbatim>\<open>round(x)\<close> with one argument: the nearest integer, a tie goes to the even one.\<close>

definition py_round :: "real \<Rightarrow> int" where
  "py_round x =
     (let f = \<lfloor>x\<rfloor>; d = x - of_int f
      in if d < 1 / 2 then f
         else if 1 / 2 < d then f + 1
         else if even f then f else f + 1)"

subsection \<open>The rotation hypothesis generator\<close>

text \<open>
  \<^verbatim>\<open>
  def __rotation_generator(current_rotate: int = 0):
      rotates: list = [0, 90, 270, 180]
      i: int = rotates.index(current_rotate)
      for j in range(0, i):
          rotates.append(rotates.pop(0))
      for i in range(len(rotates)):
          yield rotates[i]
  \<close>
  A generator object runs nothing when it is created: the body starts at the first
  \<^verbatim>\<open>next\<close>. Its state is either \<open>Created\<close> with the argument, or \<open>Yielding\<close> with the
  angles still to come; a generator that has raised or has run to its end is
  \<open>Yielding []\<close>, and every further \<^verbatim>\<open>next\<close> raises \<open>StopIteration\<close>.
\<close>

definition rotates :: "int list" where
  "rotates = [0, 90, 270, 180]"

text \<open>The first loop: \<open>i\<close> times, the front element goes to the back.\<close>

fun pop_append :: "nat \<Rightarrow> int list \<Rightarrow> py_error + int list" where
  "pop_append 0 xs = Inr xs"
| "pop_append (Suc j) xs =
     (case xs of [] \<Rightarrow> Inl IndexError | x # r \<Rightarrow> pop_append j (r @ [x]))"

datatype rot_gen = Created int | Yielding "int list"

definition rotation_generator :: "int \<Rightarrow> rot_gen" where
  "rotation_generator current_rotate = Created current_rotate"

fun yield_from :: "int list \<Rightarrow> (py_error + int) \<times> rot_gen" where
  "yield_from [] = (Inl StopIteration, Yielding [])"
| "yield_from (r # rs) = (Inr r, Yielding rs)"

fun gen_next :: "rot_gen \<Rightarrow> (py_error + int) \<times> rot_gen" where
  "gen_next (Created current_rotate) =
     (case list_index rotates current_rotate of
        Inl e \<Rightarrow> (Inl e, Yielding [])
      | Inr i \<Rightarrow>
          (case pop_append i rotates of
             Inl e \<Rightarrow> (Inl e, Yielding [])
           | Inr rs \<Rightarrow> yield_from rs))"
| "gen_next (Yielding rs) = yield_from rs"

text \<open>Drawing \<open>n\<close> times from a generator: what each \<^verbatim>\<open>next\<close> gave, in order.\<close>

fun draw :: "nat \<Rightarrow> rot_gen \<Rightarrow> (py_error + int) list" where
  "draw 0 g = []"
| "draw (Suc n) g = (case gen_next g of (r, g') \<Rightarrow> r # draw n g')"

subsection \<open>OpenCV\<close>

type_synonym face = "int \<times> int \<times> int \<times> int"

datatype rotate_code = ROTATE_90_CLOCKWISE | ROTATE_180 | ROTATE_90_COUNTERCLOCKWISE

text \<open>
  The operations of the library that the module calls, on images \<open>'img\<close> and on an open
  video capture \<open>'cap\<close>:
  \<^item> \<open>rotate_image\<close> is \<^verbatim>\<open>cv2.rotate\<close>, \<open>cvtColor\<close> is \<^verbatim>\<open>cv2.cvtColor(_, COLOR_BGR2GRAY)\<close>;
  \<^item> \<open>detectMultiScale\<close> is the classifier called with \<^verbatim>\<open>scaleFactor=1.2, minNeighbors=10\<close>:
    the regions \<open>(x, y, w, h)\<close> of the faces it finds;
  \<^item> \<open>read\<close> is \<^verbatim>\<open>capture.read()\<close>: \<open>None\<close> when no frame was captured;
  \<^item> \<open>set_pos_frames\<close> is \<^verbatim>\<open>capture.set(cv2.CAP_PROP_POS_FRAMES, _)\<close>.
\<close>

record ('img, 'cap) cv2 =
  rotate_image :: "'img \<Rightarrow> rotate_code \<Rightarrow> 'img"
  cvtColor :: "'img \<Rightarrow> 'img"
  detectMultiScale :: "'img \<Rightarrow> face list"
  read :: "'cap \<Rightarrow> 'img option \<times> 'cap"
  set_pos_frames :: "'cap \<Rightarrow> real \<Rightarrow> 'cap"

definition cv2_rotation_consts :: "(int \<times> rotate_code) list" where
  "cv2_rotation_consts =
     [(90, ROTATE_90_COUNTERCLOCKWISE), (180, ROTATE_180), (270, ROTATE_90_CLOCKWISE)]"

subsection \<open>Faces in one frame\<close>

text \<open>
  Lines 123 to 128 of the module: the frame is rotated (not for the angle 0), turned to
  grey and given to the classifier.
\<close>

definition faces_in_frame :: "('img, 'cap) cv2 \<Rightarrow> 'img \<Rightarrow> int \<Rightarrow> py_error + face list" where
  "faces_in_frame cv img current_rotation =
     (if current_rotation \<noteq> 0 then
        (case dict_get cv2_rotation_consts current_rotation of
           Inl e \<Rightarrow> Inl e
         | Inr c \<Rightarrow> Inr (detectMultiScale cv (cvtColor cv (rotate_image cv img c))))
      else Inr (detectMultiScale cv (cvtColor cv img)))"

text \<open>
  The loop over the faces found: \<open>average_x\<close>, \<open>average_y\<close> and \<open>face_counter\<close> are the
  accumulators; the centre of a region is \<open>(x + w / 2, y + h / 2)\<close>.
\<close>

fun sum_centers :: "face list \<Rightarrow> real \<times> real \<times> nat \<Rightarrow> real \<times> real \<times> nat" where
  "sum_centers [] acc = acc"
| "sum_centers ((fx, fy, fw, fh) # fs) (average_x, average_y, face_counter) =
     sum_centers fs
       (average_x + (of_int fx + of_int fw / 2),
        average_y + (of_int fy + of_int fh / 2),
        face_counter + 1)"

text \<open>The return statement of line 138; the list of faces is not empty there.\<close>

definition average_center :: "face list \<Rightarrow> int \<times> int" where
  "average_center fs =
     (case sum_centers fs (0, 0, 0) of
        (average_x, average_y, face_counter) \<Rightarrow>
          (py_round (average_x / of_nat face_counter),
           py_round (average_y / of_nat face_counter)))"

datatype rot_arg = IntArg int | GenArg rot_gen

definition as_generator :: "rot_arg \<Rightarrow> rot_gen" where
  "as_generator rotation =
     (case rotation of IntArg r \<Rightarrow> rotation_generator r | GenArg g \<Rightarrow> g)"

text \<open>The number of angles a generator can still yield, at most.\<close>

fun gen_size :: "rot_gen \<Rightarrow> nat" where
  "gen_size (Created r) = Suc (length rotates)"
| "gen_size (Yielding rs) = length rs"

text \<open>
  \<^verbatim>\<open>get_average_face_position_in_image(image, rotation)\<close>. The result is a pair: the
  angles at which the classifier was called, in order, and what the function returns
  (\<open>Inr None\<close> is Python's \<open>None\<close>) or raises.
\<close>

function get_average_face_position_in_image ::
  "('img, 'cap) cv2 \<Rightarrow> 'img \<Rightarrow> rot_arg \<Rightarrow> int list \<times> (py_error + (int \<times> int \<times> int) option)"
where
  "get_average_face_position_in_image cv img rotation =
     (case gen_next (as_generator rotation) of
        (Inl e, g) \<Rightarrow> if e = StopIteration then ([], Inr None) else ([], Inl e)
      | (Inr current_rotation, g) \<Rightarrow>
          (case faces_in_frame cv img current_rotation of
             Inl e \<Rightarrow> ([], Inl e)
           | Inr faces \<Rightarrow>
               if length faces = 0 then
                 (case get_average_face_position_in_image cv img (GenArg g) of
                    (calls, res) \<Rightarrow> (current_rotation # calls, res))
               else
                 (case average_center faces of
                    (x, y) \<Rightarrow> ([current_rotation], Inr (Some (x, y, current_rotation))))))"
  by pat_completeness auto
termination
proof (relation "measure (\<lambda>(cv, img, rotation). gen_size (as_generator rotation))")
  show "wf (measure (\<lambda>(cv, img, rotation). gen_size (as_generator rotation)))"
    by simp
next
  fix cv :: "('img, 'cap) cv2" and img :: 'img and rotation x1 x2 c
  assume "(x1, x2) = gen_next (as_generator rotation)" and "x1 = Inr c"
  then have n: "gen_next (as_generator rotation) = (Inr c, x2)"
    by simp
  have len: "pop_append j xs = Inr ys \<Longrightarrow> length ys = length xs" for j xs ys
    by (induction j arbitrary: xs) (auto split: list.splits)
  have yield: "yield_from rs = (Inr c, x2) \<Longrightarrow> gen_size x2 < length rs" for rs
    by (cases rs) auto
  have "gen_size x2 < gen_size (as_generator rotation)"
  proof (cases "as_generator rotation")
    case (Created r0)
    with n obtain i rs where
      rs: "pop_append i rotates = Inr rs" and y: "yield_from rs = (Inr c, x2)"
      by (auto split: sum.splits)
    from yield [OF y] len [OF rs] Created show ?thesis
      by simp
  next
    case (Yielding rs)
    with n show ?thesis
      by (simp add: yield)
  qed
  then show "((cv, img, GenArg x2), cv, img, rotation)
        \<in> measure (\<lambda>(cv, img, rotation). gen_size (as_generator rotation))"
    by (simp add: as_generator_def)
qed

subsection \<open>The orientation of a clip\<close>

text \<open>The dataclass \<^verbatim>\<open>Metadata\<close>.\<close>

record metadata =
  filename :: string
  width :: int
  height :: int
  rotation :: real
  duration :: int
  codec :: string
  fps :: real

text \<open>
  The local variables of \<^verbatim>\<open>get_average_faces_position_in_clip\<close> that the sampling
  loop changes; \<open>rotation_var\<close> is the local \<^verbatim>\<open>rotation\<close>.
\<close>

record 'cap locals =
  faces :: "(int \<times> (int \<times> int) list) list"
  capture :: 'cap
  rotation_var :: int
  frames_counter :: int

text \<open>Lines 46 to 55: the state before the loop, on a capture that was just opened.\<close>

definition initial_locals :: "'cap \<Rightarrow> 'cap locals" where
  "initial_locals cap =
     \<lparr>faces = [(0, []), (90, []), (180, []), (270, [])],
      capture = cap, rotation_var = 0, frames_counter = 1\<rparr>"

datatype 'a flow = Break 'a | Continue 'a

text \<open>
  Lines 66 and 67, the end of an iteration: the counter grows, then the capture is moved.
  \<^verbatim>\<open>get_video_metadata\<close> returns \<open>None\<close> for a file without a video track, and
  \<^verbatim>\<open>metadata.fps\<close> raises \<open>AttributeError\<close> then.
\<close>

definition next_frame ::
  "('img, 'cap) cv2 \<Rightarrow> metadata option \<Rightarrow> 'cap locals \<Rightarrow> py_error + 'cap locals flow"
where
  "next_frame cv md s =
     (let n = frames_counter s + 1
      in case md of
           None \<Rightarrow> Inl AttributeError
         | Some m \<Rightarrow>
             Inr (Continue (s\<lparr>frames_counter := n,
                              capture := set_pos_frames cv (capture s) (fps m * of_int n)\<rparr>)))"

text \<open>One iteration of the \<^verbatim>\<open>while True\<close> loop, lines 57 to 67.\<close>

definition loop_body ::
  "('img, 'cap) cv2 \<Rightarrow> metadata option \<Rightarrow> 'cap locals \<Rightarrow> py_error + 'cap locals flow"
where
  "loop_body cv md s =
     (case read cv (capture s) of
        (None, cap) \<Rightarrow> Inr (Break (s\<lparr>capture := cap\<rparr>))
      | (Some img, cap) \<Rightarrow>
          (case snd (get_average_face_position_in_image cv img (IntArg (rotation_var s))) of
             Inl e \<Rightarrow> Inl e
           | Inr None \<Rightarrow> next_frame cv md (s\<lparr>capture := cap\<rparr>)
           | Inr (Some (x, y, r)) \<Rightarrow>
               (case dict_append (faces s) r (x, y) of
                  Inl e \<Rightarrow> Inl e
                | Inr fs \<Rightarrow>
                    (case dict_get fs r of
                       Inl e \<Rightarrow> Inl e
                     | Inr obs \<Rightarrow>
                         (let s' = s\<lparr>capture := cap, rotation_var := r, faces := fs\<rparr>
                          in if length obs > 2 then Inr (Break s')
                             else next_frame cv md s')))))"

text \<open>
  The loop. It has no bound of its own: a run that never leaves it is \<open>None\<close>.
\<close>

partial_function (option) sample_frames ::
  "('img, 'cap) cv2 \<Rightarrow> metadata option \<Rightarrow> 'cap locals \<Rightarrow> (py_error + 'cap locals) option"
where
  "sample_frames cv md s =
     (case loop_body cv md s of
        Inl e \<Rightarrow> Some (Inl e)
      | Inr (Break s') \<Rightarrow> Some (Inr s')
      | Inr (Continue s') \<Rightarrow> sample_frames cv md s')"

declare sample_frames.simps [code]

text \<open>
  The state in which the sampling attempt number \<open>k\<close> starts (the first attempt is number
  1), when the loop gets that far.
\<close>

fun attempt :: "('img, 'cap) cv2 \<Rightarrow> metadata option \<Rightarrow> nat \<Rightarrow> 'cap locals \<Rightarrow> 'cap locals option" where
  "attempt cv md 0 s = None"
| "attempt cv md (Suc 0) s = Some s"
| "attempt cv md (Suc (Suc k)) s =
     (case loop_body cv md s of
        Inr (Continue s') \<Rightarrow> attempt cv md (Suc k) s'
      | _ \<Rightarrow> None)"

text \<open>
  The states a run passes through in its first \<open>n\<close> iterations: the state at the head of
  each iteration, and the state in which the loop was left.
\<close>

fun run_states :: "('img, 'cap) cv2 \<Rightarrow> metadata option \<Rightarrow> nat \<Rightarrow> 'cap locals \<Rightarrow> 'cap locals list" where
  "run_states cv md 0 s = [s]"
| "run_states cv md (Suc n) s =
     s # (case loop_body cv md s of
            Inl e \<Rightarrow> []
          | Inr (Break s') \<Rightarrow> [s']
          | Inr (Continue s') \<Rightarrow> run_states cv md n s')"

text \<open>Lines 68 to 73: the loop over \<^verbatim>\<open>faces.items()\<close>.\<close>

fun max_group :: "(int \<times> (int \<times> int) list) list \<Rightarrow> int \<times> int \<Rightarrow> int \<times> int" where
  "max_group [] acc = acc"
| "max_group ((key, faces_in_group) # items) (max_faces_in_group, r) =
     (let count_faces_in_group = int (length faces_in_group)
      in if count_faces_in_group > max_faces_in_group
         then max_group items (count_faces_in_group, key)
         else max_group items (max_faces_in_group, r))"

definition winning_rotation :: "'cap locals \<Rightarrow> int" where
  "winning_rotation s = snd (max_group (faces s) (0, rotation_var s))"

text \<open>Lines 74 to 79: \<open>(clip_w, clip_h)\<close>.\<close>

definition clip_size :: "metadata \<Rightarrow> int \<Rightarrow> int \<times> int" where
  "clip_size m r =
     (if py_fmod (of_int r / 90) 2 = 1 then (height m, width m) else (width m, height m))"

text \<open>Lines 80 and 81.\<close>

definition lines :: "int \<times> int \<Rightarrow> real list \<times> real list" where
  "lines wh =
     (case wh of (clip_w, clip_h) \<Rightarrow>
        ([of_int clip_w / 3, of_int clip_w * 2 / 3, of_int clip_w],
         [of_int clip_h / 3, of_int clip_h * 2 / 3, of_int clip_h]))"

text \<open>
  The inner loops of lines 89 to 96: the number of the first line that the coordinate does
  not exceed, counting from \<open>i + 1\<close>; 0 when it exceeds them all.
\<close>

fun cell :: "real list \<Rightarrow> int \<Rightarrow> int \<Rightarrow> int" where
  "cell [] i v = 0"
| "cell (l # ls) i v = (if of_int v \<le> l then i + 1 else cell ls (i + 1) v)"

text \<open>The loop of lines 85 to 99, with \<open>average_x\<close>, \<open>average_y\<close> and \<open>faces_counter\<close>.\<close>

fun sum_cells :: "real list \<times> real list \<Rightarrow> (int \<times> int) list \<Rightarrow> int \<times> int \<times> int \<Rightarrow> int \<times> int \<times> int" where
  "sum_cells ls [] acc = acc"
| "sum_cells ls (face # obs) (average_x, average_y, faces_counter) =
     (let x = cell (fst ls) 0 (fst face);
          y = cell (snd ls) 0 (snd face)
      in sum_cells ls obs (average_x + x, average_y + y, faces_counter + 1))"

text \<open>Line 100.\<close>

definition average_cell :: "int \<times> int \<times> int \<Rightarrow> py_error + int \<times> int" where
  "average_cell acc =
     (case acc of (average_x, average_y, faces_counter) \<Rightarrow>
        (case py_truediv (of_int average_x) (of_int faces_counter) of
           Inl e \<Rightarrow> Inl e
         | Inr qx \<Rightarrow>
             (case py_truediv (of_int average_y) (of_int faces_counter) of
                Inl e \<Rightarrow> Inl e
              | Inr qy \<Rightarrow> Inr (py_round qx, py_round qy))))"

text \<open>Lines 68 to 100: what follows the loop.\<close>

definition after_loop :: "metadata option \<Rightarrow> 'cap locals \<Rightarrow> py_error + int \<times> int \<times> int" where
  "after_loop md s =
     (let r = winning_rotation s
      in case md of
           None \<Rightarrow> Inl AttributeError
         | Some m \<Rightarrow>
             (case dict_get (faces s) r of
                Inl e \<Rightarrow> Inl e
              | Inr obs \<Rightarrow>
                  (case average_cell (sum_cells (lines (clip_size m r)) obs (0, 0, 0)) of
                     Inl e \<Rightarrow> Inl e
                   | Inr (bx, by) \<Rightarrow> Inr (bx, by, r))))"

text \<open>
  \<^verbatim>\<open>get_average_faces_position_in_clip(path)\<close>, from the capture opened on the path and
  the metadata read from it. \<open>None\<close>: the run never returns.
\<close>

definition get_average_faces_position_in_clip ::
  "('img, 'cap) cv2 \<Rightarrow> metadata option \<Rightarrow> 'cap \<Rightarrow> (py_error + int \<times> int \<times> int) option"
where
  "get_average_faces_position_in_clip cv md cap =
     (case sample_frames cv md (initial_locals cap) of
        None \<Rightarrow> None
      | Some (Inl e) \<Rightarrow> Some (Inl e)
      | Some (Inr s) \<Rightarrow> Some (after_loop md s))"

subsection \<open>Reference notions and a small instance of the library\<close>

text \<open>
  The mean, over the faces found, of the centre \<open>(x + w / 2, y + h / 2)\<close> of each region:
  the value against which the loop of the search in a frame is compared.
\<close>

definition center_mean :: "face list \<Rightarrow> real \<times> real" where
  "center_mean fs =
     ((\<Sum>(x, y, w, h)\<leftarrow>fs. of_int x + of_int w / 2) / of_nat (length fs),
      (\<Sum>(x, y, w, h)\<leftarrow>fs. of_int y + of_int h / 2) / of_nat (length fs))"

text \<open>
  An instance of the library for the examples. An image is the angle by which it has to
  be turned for its faces to stand upright, with the regions the classifier finds then;
  a capture is the list of the frames of the clip with the index of the next one, and a
  seek to a fractional index goes to the frame below it.
\<close>

definition code_angle :: "rotate_code \<Rightarrow> int" where
  "code_angle c =
     (case c of ROTATE_90_COUNTERCLOCKWISE \<Rightarrow> 90 | ROTATE_180 \<Rightarrow> 180 | ROTATE_90_CLOCKWISE \<Rightarrow> 270)"

definition demo_cv2 :: "(int \<times> face list, (int \<times> face list) list \<times> nat) cv2" where
  "demo_cv2 =
     \<lparr>rotate_image = (\<lambda>(a, fs) c. ((a - code_angle c) mod 360, fs)),
      cvtColor = (\<lambda>i. i),
      detectMultiScale = (\<lambda>(a, fs). if a = 0 then fs else []),
      read = (\<lambda>(frames, pos).
                if pos < length frames then (Some (frames ! pos), (frames, pos + 1))
                else (None, (frames, pos))),
      set_pos_frames = (\<lambda>(frames, pos) v. (frames, nat \<lfloor>v\<rfloor>))\<rparr>"

text \<open>
  What the sampling loop keeps true, with \<open>n\<close> the bound on the length of the lists: the
  dictionary has its four keys in their order, the local \<open>rotation\<close> is one of them, and
  it is 0 as long as nothing was observed.
\<close>

definition sampling_inv :: "nat \<Rightarrow> 'cap locals \<Rightarrow> bool" where
  "sampling_inv n s \<longleftrightarrow>
     map fst (faces s) = [0, 90, 180, 270] \<and>
     (\<forall>obs\<in>set (map snd (faces s)). length obs \<le> n) \<and>
     rotation_var s \<in> {0, 90, 180, 270} \<and>
     ((\<forall>obs\<in>set (map snd (faces s)). obs = []) \<longrightarrow> rotation_var s = 0)"



text \<open>
  Two clips for the examples, both at 2 frames per second. In the first every frame shows
  one face, upright after a turn by 90; \<open>demo_state k\<close> is the state of the loop on it
  after \<open>k\<close> iterations. The second shows no face.
\<close>

definition demo_metadata :: metadata where
  "demo_metadata =
     \<lparr>filename = ''clip.mp4'', width = 1920, height = 1080, rotation = 0, duration = 4000,
      codec = ''AVC'', fps = 2\<rparr>"

definition demo_clip :: "(int \<times> face list) list" where
  "demo_clip =
     [(90, [(100, 0, 2, 2)]), (90, [(200, 0, 2, 2)]), (90, [(300, 0, 2, 2)]),
      (90, [(400, 0, 2, 2)]), (90, [(500, 0, 2, 2)]), (90, [(600, 0, 2, 2)]),
      (90, [(1100, 0, 2, 2)]), (90, [(1200, 0, 2, 2)])]"

definition demo_state :: "int \<Rightarrow> ((int \<times> face list) list \<times> nat) locals" where
  "demo_state k =
     \<lparr>faces = [(0, []), (90, take (nat k) [(101, 1), (501, 1), (1101, 1)]), (180, []), (270, [])],
      capture = (demo_clip, if k = 0 then 0 else if k = 1 then 4 else if k = 2 then 6 else 7),
      rotation_var = (if k = 0 then 0 else 90),
      frames_counter = (if k = 0 then 1 else if k = 1 then 2 else 3)\<rparr>"


section \<open>Properties\<close>

declare get_average_face_position_in_image.simps [simp del]

subsection \<open>The generator\<close>

lemma draw_canonical:
  "draw 5 (rotation_generator 0) = [Inr 0, Inr 90, Inr 270, Inr 180, Inl StopIteration]"
  "draw 5 (rotation_generator 90) = [Inr 90, Inr 270, Inr 180, Inr 0, Inl StopIteration]"
  "draw 5 (rotation_generator 270) = [Inr 270, Inr 180, Inr 0, Inr 90, Inl StopIteration]"
  "draw 5 (rotation_generator 180) = [Inr 180, Inr 0, Inr 90, Inr 270, Inl StopIteration]"
  by (simp_all add: rotation_generator_def rotates_def eval_nat_numeral)

lemma list_index_canonical:
  "list_index rotates 0 = Inr 0" "list_index rotates 90 = Inr 1"
  "list_index rotates 270 = Inr 2" "list_index rotates 180 = Inr 3"
  by (simp_all add: rotates_def)

lemma rotate_rotates:
  "rotate1 rotates = [90, 270, 180, 0]"
  "List.rotate 2 rotates = [270, 180, 0, 90]"
  "List.rotate 3 rotates = [180, 0, 90, 270]"
  by (simp_all add: rotates_def eval_nat_numeral rotate_def)

lemma list_index_ValueError: "v \<notin> set xs \<Longrightarrow> list_index xs v = Inl ValueError"
  by (induction xs) auto

lemma draw_exhausted: "draw n (Yielding []) = replicate n (Inl StopIteration)"
  by (induction n) auto

text \<open>
  C2. Started at one of the angles 0, 90, 180, 270, the generator yields four angles and
  then signals its end with \<open>StopIteration\<close>: the five draws are the base ordering
  \<open>[0, 90, 270, 180]\<close> rotated cyclically by the index \<open>i\<close> of the starting angle in it,
  then the end signal. The four angles start with the starting angle, are distinct and
  are exactly the four canonical ones.
\<close>

theorem rotation_generator_cycle:
  assumes "r0 \<in> {0, 90, 180, 270}"
  shows "\<exists>i<4. list_index rotates r0 = Inr i \<and>
           draw 5 (rotation_generator r0) = map Inr (List.rotate i rotates) @ [Inl StopIteration] \<and>
           hd (List.rotate i rotates) = r0 \<and>
           length (List.rotate i rotates) = 4 \<and>
           distinct (List.rotate i rotates) \<and>
           set (List.rotate i rotates) = {0, 90, 180, 270}"
proof -
  consider "r0 = 0" | "r0 = 90" | "r0 = 270" | "r0 = 180"
    using assms by auto
  then show ?thesis
  proof cases
    case 1
    show ?thesis
      by (rule exI [of _ 0]) (auto simp add: 1 draw_canonical list_index_canonical rotates_def)
  next
    case 2
    show ?thesis
      by (rule exI [of _ 1]) (simp add: 2 draw_canonical list_index_canonical rotate_rotates, auto)
  next
    case 3
    show ?thesis
      by (rule exI [of _ 2]) (simp add: 3 draw_canonical list_index_canonical rotate_rotates, auto)
  next
    case 4
    show ?thesis
      by (rule exI [of _ 3]) (simp add: 4 draw_canonical list_index_canonical rotate_rotates, auto)
  qed
qed

theorem rotation_generator_cycle_witness:
  "(270::int) \<in> {0, 90, 180, 270} \<and>
   draw 5 (rotation_generator 270) = [Inr 270, Inr 180, Inr 0, Inr 90, Inl StopIteration]"
  using rotation_generator_cycle [of 270]
  by (auto simp add: list_index_canonical rotate_rotates)

text \<open>
  C9. Started at any other integer, the generator raises \<open>ValueError\<close> at the first draw
  and yields no angle: every later draw is the end signal. The search in a frame called
  with such an integer raises the same error, before the classifier is ever called.
\<close>

theorem rotation_generator_invalid:
  assumes "r0 \<notin> {0, 90, 180, 270}"
  shows "draw (Suc n) (rotation_generator r0) = Inl ValueError # replicate n (Inl StopIteration) \<and>
         get_average_face_position_in_image cv img (IntArg r0) = ([], Inl ValueError)"
proof -
  have "r0 \<notin> set rotates"
    using assms by (auto simp: rotates_def)
  then have n: "gen_next (Created r0) = (Inl ValueError, Yielding [])"
    by (simp add: list_index_ValueError)
  show ?thesis
    by (simp add: rotation_generator_def n draw_exhausted as_generator_def
        get_average_face_position_in_image.simps [of cv img "IntArg r0"] del: gen_next.simps)
qed

theorem rotation_generator_invalid_witness:
  "(45::int) \<notin> {0, 90, 180, 270} \<and>
   draw 3 (rotation_generator 45) = [Inl ValueError, Inl StopIteration, Inl StopIteration] \<and>
   get_average_face_position_in_image demo_cv2 (0, [(1, 1, 2, 2)]) (IntArg 45) = ([], Inl ValueError)"
  using rotation_generator_invalid [of 45 2 demo_cv2 "(0, [(1, 1, 2, 2)])"]
  by (simp add: eval_nat_numeral)

subsection \<open>The search in one frame\<close>

lemma faces_in_frame_canonical:
  "r \<in> {0, 90, 180, 270} \<Longrightarrow> \<exists>fs. faces_in_frame cv img r = Inr fs"
  by (auto simp: faces_in_frame_def dict_get_def cv2_rotation_consts_def)

lemma locate_cong:
  "gen_next (as_generator a) = gen_next (as_generator b) \<Longrightarrow>
   get_average_face_position_in_image cv img a = get_average_face_position_in_image cv img b"
  by (simp add: get_average_face_position_in_image.simps [of cv img a]
      get_average_face_position_in_image.simps [of cv img b])

lemma locate_Nil:
  "get_average_face_position_in_image cv img (GenArg (Yielding [])) = ([], Inr None)"
  by (simp add: get_average_face_position_in_image.simps [of cv img "GenArg (Yielding [])"]
      as_generator_def)

lemma locate_Cons:
  "get_average_face_position_in_image cv img (GenArg (Yielding (r # rs))) =
     (case faces_in_frame cv img r of
        Inl e \<Rightarrow> ([], Inl e)
      | Inr fs \<Rightarrow>
          if fs = [] then
            (case get_average_face_position_in_image cv img (GenArg (Yielding rs)) of
               (calls, res) \<Rightarrow> (r # calls, res))
          else (case average_center fs of (x, y) \<Rightarrow> ([r], Inr (Some (x, y, r)))))"
  by (simp add: get_average_face_position_in_image.simps [of cv img "GenArg (Yielding (r # rs))"]
      as_generator_def split: sum.splits)

lemma locate_yielding:
  "set rs \<subseteq> {0, 90, 180, 270} \<Longrightarrow>
   (snd (get_average_face_position_in_image cv img (GenArg (Yielding rs))) = Inr None
      \<longleftrightarrow> (\<forall>r\<in>set rs. faces_in_frame cv img r = Inr [])) \<and>
   length (fst (get_average_face_position_in_image cv img (GenArg (Yielding rs)))) \<le> length rs"
proof (induction rs)
  case Nil
  show ?case by (simp add: locate_Nil)
next
  case (Cons r rs)
  from Cons.prems have "r \<in> {0, 90, 180, 270}" by simp
  from faces_in_frame_canonical [OF this, of cv img]
  obtain fs where fs: "faces_in_frame cv img r = Inr fs" by blast
  from Cons have IH:
    "(snd (get_average_face_position_in_image cv img (GenArg (Yielding rs))) = Inr None
        \<longleftrightarrow> (\<forall>r\<in>set rs. faces_in_frame cv img r = Inr [])) \<and>
     length (fst (get_average_face_position_in_image cv img (GenArg (Yielding rs)))) \<le> length rs"
    by simp
  show ?case
  proof (cases "fs = []")
    case True
    with fs IH show ?thesis
      by (auto simp add: locate_Cons case_prod_beta)
  next
    case False
    with fs show ?thesis
      by (simp add: locate_Cons case_prod_beta)
  qed
qed

lemma gen_next_canonical:
  "gen_next (Created 0) = gen_next (Yielding [0, 90, 270, 180])"
  "gen_next (Created 90) = gen_next (Yielding [90, 270, 180, 0])"
  "gen_next (Created 270) = gen_next (Yielding [270, 180, 0, 90])"
  "gen_next (Created 180) = gen_next (Yielding [180, 0, 90, 270])"
  by (simp_all add: rotates_def eval_nat_numeral)

lemma locate_IntArg:
  assumes "r0 \<in> {0, 90, 180, 270}"
  shows "\<exists>rs. set rs = {0, 90, 180, 270} \<and> length rs = 4 \<and> hd rs = r0 \<and>
     get_average_face_position_in_image cv img (IntArg r0) =
     get_average_face_position_in_image cv img (GenArg (Yielding rs))"
proof -
  consider "r0 = 0" | "r0 = 90" | "r0 = 270" | "r0 = 180"
    using assms by auto
  then show ?thesis
  proof cases
    case 1
    have "get_average_face_position_in_image cv img (IntArg r0) =
          get_average_face_position_in_image cv img (GenArg (Yielding [0, 90, 270, 180]))"
      by (rule locate_cong)
        (simp add: as_generator_def rotation_generator_def 1 gen_next_canonical del: gen_next.simps)
    then show ?thesis
      by (intro exI [of _ "[0, 90, 270, 180]"]) (auto simp: 1)
  next
    case 2
    have "get_average_face_position_in_image cv img (IntArg r0) =
          get_average_face_position_in_image cv img (GenArg (Yielding [90, 270, 180, 0]))"
      by (rule locate_cong)
        (simp add: as_generator_def rotation_generator_def 2 gen_next_canonical del: gen_next.simps)
    then show ?thesis
      by (intro exI [of _ "[90, 270, 180, 0]"]) (auto simp: 2)
  next
    case 3
    have "get_average_face_position_in_image cv img (IntArg r0) =
          get_average_face_position_in_image cv img (GenArg (Yielding [270, 180, 0, 90]))"
      by (rule locate_cong)
        (simp add: as_generator_def rotation_generator_def 3 gen_next_canonical del: gen_next.simps)
    then show ?thesis
      by (intro exI [of _ "[270, 180, 0, 90]"]) (auto simp: 3)
  next
    case 4
    have "get_average_face_position_in_image cv img (IntArg r0) =
          get_average_face_position_in_image cv img (GenArg (Yielding [180, 0, 90, 270]))"
      by (rule locate_cong)
        (simp add: as_generator_def rotation_generator_def 4 gen_next_canonical del: gen_next.simps)
    then show ?thesis
      by (intro exI [of _ "[180, 0, 90, 270]"]) (auto simp: 4)
  qed
qed

text \<open>
  C3. Called on a frame with one of the angles 0, 90, 180, 270, the search returns \<open>None\<close>
  exactly when the classifier finds no face at any of the four angles, and it calls the
  classifier at most four times.
\<close>

theorem frame_locator_none_iff:
  assumes "r0 \<in> {0, 90, 180, 270}"
  shows "(snd (get_average_face_position_in_image cv img (IntArg r0)) = Inr None
           \<longleftrightarrow> (\<forall>r\<in>{0, 90, 180, 270}. faces_in_frame cv img r = Inr [])) \<and>
         length (fst (get_average_face_position_in_image cv img (IntArg r0))) \<le> 4"
proof -
  from locate_IntArg [OF assms, of cv img] obtain rs where
    rs: "set rs = {0, 90, 180, 270}" "length rs = 4" and
    eq: "get_average_face_position_in_image cv img (IntArg r0) =
         get_average_face_position_in_image cv img (GenArg (Yielding rs))"
    by blast
  have "set rs \<subseteq> {0, 90, 180, 270}" using rs by simp
  from locate_yielding [OF this, of cv img] show ?thesis
    unfolding eq rs by blast
qed

theorem frame_locator_none_iff_witness:
  "(90::int) \<in> {0, 90, 180, 270} \<and>
   snd (get_average_face_position_in_image demo_cv2 (0, []) (IntArg 90)) = Inr None \<and>
   snd (get_average_face_position_in_image demo_cv2 (180, [(1, 1, 2, 2)]) (IntArg 90)) \<noteq> Inr None \<and>
   length (fst (get_average_face_position_in_image demo_cv2 (0, []) (IntArg 90))) \<le> 4"
  using frame_locator_none_iff [of 90 demo_cv2 "(0, [])"]
    frame_locator_none_iff [of 90 demo_cv2 "(180, [(1, 1, 2, 2)])"]
  by (simp add: faces_in_frame_def dict_get_def cv2_rotation_consts_def demo_cv2_def code_angle_def)

lemma sum_centers_eq:
  "sum_centers fs (ax, ay, n) =
     (ax + (\<Sum>(x, y, w, h)\<leftarrow>fs. of_int x + of_int w / 2),
      ay + (\<Sum>(x, y, w, h)\<leftarrow>fs. of_int y + of_int h / 2),
      n + length fs)"
  by (induction fs arbitrary: ax ay n) (auto simp: algebra_simps)

lemma average_center_eq:
  "average_center fs = (py_round (fst (center_mean fs)), py_round (snd (center_mean fs)))"
  by (simp add: average_center_def center_mean_def sum_centers_eq)

lemma locate_found:
  assumes "gen_next (as_generator a) = (Inr r, g)"
    and "faces_in_frame cv img r = Inr fs" and "fs \<noteq> []"
  shows "get_average_face_position_in_image cv img a =
         ([r], Inr (Some (py_round (fst (center_mean fs)), py_round (snd (center_mean fs)), r)))"
  using assms
  by (simp add: get_average_face_position_in_image.simps [of cv img a] average_center_eq)

text \<open>
  C4. When the angle \<open>r\<close> drawn from the generator is one at which the classifier finds
  the faces \<open>fs\<close>, at least one, the search calls the classifier once and returns the mean
  of the centres \<open>(x + w / 2, y + h / 2)\<close> of the regions, each coordinate rounded as
  Python's \<open>round\<close> does, together with \<open>r\<close>. For the single region
  \<open>(10, 20, 30, 40)\<close> found at the angle 0 the result is \<open>(25, 40, 0)\<close>.
\<close>

theorem frame_locator_mean_center:
  "(gen_next (as_generator a) = (Inr r, g) \<and> faces_in_frame cv img r = Inr fs \<and> fs \<noteq> [] \<longrightarrow>
      get_average_face_position_in_image cv img a =
        ([r], Inr (Some (py_round (fst (center_mean fs)), py_round (snd (center_mean fs)), r)))) \<and>
   (faces_in_frame cv img 0 = Inr [(10, 20, 30, 40)] \<longrightarrow>
      snd (get_average_face_position_in_image cv img (IntArg 0)) = Inr (Some (25, 40, 0)))"
proof (intro conjI impI)
  assume "gen_next (as_generator a) = (Inr r, g) \<and> faces_in_frame cv img r = Inr fs \<and> fs \<noteq> []"
  then show "get_average_face_position_in_image cv img a =
        ([r], Inr (Some (py_round (fst (center_mean fs)), py_round (snd (center_mean fs)), r)))"
    by (simp add: locate_found)
next
  assume f: "faces_in_frame cv img 0 = Inr [(10, 20, 30, 40)]"
  have n: "gen_next (as_generator (IntArg 0)) = (Inr 0, Yielding [90, 270, 180])"
    by (simp add: as_generator_def rotation_generator_def rotates_def)
  have m: "center_mean [(10, 20, 30, 40)] = (25, 40)"
    by (simp add: center_mean_def)
  have r: "py_round 25 = 25" "py_round 40 = 40"
    by (simp_all add: py_round_def)
  from locate_found [OF n f] show
    "snd (get_average_face_position_in_image cv img (IntArg 0)) = Inr (Some (25, 40, 0))"
    by (simp add: m r)
qed

theorem frame_locator_mean_center_witness:
  "get_average_face_position_in_image demo_cv2 (90, [(0, 2, 4, 6), (1, 2, 4, 6)])
     (GenArg (Yielding [90, 0])) = ([90], Inr (Some (2, 5, 90))) \<and>
   snd (get_average_face_position_in_image demo_cv2 (0, [(10, 20, 30, 40)]) (IntArg 0)) =
     Inr (Some (25, 40, 0))"
  using frame_locator_mean_center [of "GenArg (Yielding [90, 0])" 90 "Yielding [0]" demo_cv2
      "(90, [(0, 2, 4, 6), (1, 2, 4, 6)])" "[(0, 2, 4, 6), (1, 2, 4, 6)]"]
    frame_locator_mean_center [of "IntArg 0" 0 "Yielding []" demo_cv2 "(0, [(10, 20, 30, 40)])" "[]"]
  by (simp add: as_generator_def faces_in_frame_def dict_get_def cv2_rotation_consts_def
      demo_cv2_def code_angle_def center_mean_def py_round_def Let_def)

subsection \<open>The sampling loop\<close>

lemma dict_append_props:
  "dict_append d k v = Inr d' \<Longrightarrow>
   map fst d' = map fst d \<and>
   (\<exists>old. map_of d k = Some old \<and> map_of d' k = Some (old @ [v]) \<and>
      set (map snd d') \<subseteq> insert (old @ [v]) (set (map snd d)))"
proof (induction d arbitrary: d')
  case Nil
  then show ?case by simp
next
  case (Cons a d)
  obtain k' vs where a: "a = (k', vs)" by (cases a)
  show ?case
  proof (cases "k' = k")
    case True
    with Cons.prems a show ?thesis by auto
  next
    case False
    with Cons.prems a obtain d0 where d0: "dict_append d k v = Inr d0" "d' = (k', vs) # d0"
      by (auto split: sum.splits)
    from Cons.IH [OF d0(1)] False a d0(2) show ?thesis by auto
  qed
qed

lemma locate_yielding_rotation:
  "snd (get_average_face_position_in_image cv img (GenArg (Yielding rs))) = Inr (Some (x, y, r))
   \<Longrightarrow> r \<in> set rs"
proof (induction rs)
  case Nil
  then show ?case by (simp add: locate_Nil)
next
  case (Cons a rs)
  then show ?case
    by (auto simp add: locate_Cons case_prod_beta split: sum.splits if_splits)
qed

lemma locate_rotation:
  assumes "r0 \<in> {0, 90, 180, 270}"
    and "snd (get_average_face_position_in_image cv img (IntArg r0)) = Inr (Some (x, y, r))"
  shows "r \<in> {0, 90, 180, 270}"
proof -
  from locate_IntArg [OF assms(1), of cv img] obtain rs where
    rs: "set rs = {0, 90, 180, 270}" and
    eq: "get_average_face_position_in_image cv img (IntArg r0) =
         get_average_face_position_in_image cv img (GenArg (Yielding rs))"
    by blast
  from assms(2) locate_yielding_rotation [of cv img rs x y r] show ?thesis
    unfolding eq rs by simp
qed

lemma next_frame_Continue:
  "next_frame cv md s = Inr (Continue s') \<Longrightarrow>
   faces s' = faces s \<and> rotation_var s' = rotation_var s \<and>
   (\<exists>m. md = Some m \<and> frames_counter s' = frames_counter s + 1 \<and>
      capture s' = set_pos_frames cv (capture s) (fps m * of_int (frames_counter s + 1)))"
  by (auto simp: next_frame_def Let_def split: option.splits)

lemma next_frame_no_Break: "next_frame cv md s \<noteq> Inr (Break s')"
  by (auto simp: next_frame_def Let_def split: option.splits)

text \<open>What one iteration does, case by case.\<close>

lemma loop_body_cases:
  assumes "loop_body cv md s = Inr out"
  obtains
    (exhausted) cap where "read cv (capture s) = (None, cap)" "out = Break (s\<lparr>capture := cap\<rparr>)"
  | (no_face) img cap where "read cv (capture s) = (Some img, cap)"
      "snd (get_average_face_position_in_image cv img (IntArg (rotation_var s))) = Inr None"
      "next_frame cv md (s\<lparr>capture := cap\<rparr>) = Inr out"
  | (face) img cap x y r fs old where "read cv (capture s) = (Some img, cap)"
      "snd (get_average_face_position_in_image cv img (IntArg (rotation_var s))) = Inr (Some (x, y, r))"
      "dict_append (faces s) r (x, y) = Inr fs" "map_of (faces s) r = Some old"
      "map_of fs r = Some (old @ [(x, y)])"
      "if length (old @ [(x, y)]) > 2
       then out = Break (s\<lparr>capture := cap, rotation_var := r, faces := fs\<rparr>)
       else next_frame cv md (s\<lparr>capture := cap, rotation_var := r, faces := fs\<rparr>) = Inr out"
proof (cases "read cv (capture s)")
  case (Pair fr cap)
  show ?thesis
  proof (cases fr)
    case None
    with Pair assms exhausted show ?thesis
      by (simp add: loop_body_def)
  next
    case (Some img)
    show ?thesis
    proof (cases "snd (get_average_face_position_in_image cv img (IntArg (rotation_var s)))")
      case (Inl e)
      with Pair Some assms show ?thesis by (simp add: loop_body_def)
    next
      case (Inr res)
      show ?thesis
      proof (cases res)
        case None
        with Pair Some Inr assms no_face show ?thesis
          by (simp add: loop_body_def)
      next
        case (Some xyr)
        obtain x y r where xyr: "xyr = (x, y, r)" by (cases xyr)
        from Pair \<open>fr = Some img\<close> Inr Some xyr assms
        obtain fs where fs: "dict_append (faces s) r (x, y) = Inr fs"
          by (auto simp: loop_body_def split: sum.splits)
        from dict_append_props [OF fs] obtain old where
          old: "map_of (faces s) r = Some old" "map_of fs r = Some (old @ [(x, y)])"
          by blast
        from Pair \<open>fr = Some img\<close> Inr Some xyr assms fs old
        have "if length (old @ [(x, y)]) > 2
              then out = Break (s\<lparr>capture := cap, rotation_var := r, faces := fs\<rparr>)
              else next_frame cv md (s\<lparr>capture := cap, rotation_var := r, faces := fs\<rparr>) = Inr out"
          by (auto simp: loop_body_def dict_get_def Let_def split: if_splits)
        with face [OF _ _ fs old] Pair \<open>fr = Some img\<close> Inr Some xyr show ?thesis
          by simp
      qed
    qed
  qed
qed

lemma loop_body_inv:
  assumes inv: "sampling_inv 2 s" and body: "loop_body cv md s = Inr out"
  shows "case out of Continue s' \<Rightarrow> sampling_inv 2 s' | Break s' \<Rightarrow> sampling_inv 3 s'"
  using body
proof (cases rule: loop_body_cases)
  case (exhausted cap)
  with inv show ?thesis by (auto simp: sampling_inv_def)
next
  case (no_face img cap)
  show ?thesis
  proof (cases out)
    case (Break s')
    with no_face(3) show ?thesis by (simp add: next_frame_no_Break)
  next
    case (Continue s')
    with no_face(3) next_frame_Continue [of cv md "s\<lparr>capture := cap\<rparr>" s'] inv show ?thesis
      by (simp add: sampling_inv_def)
  qed
next
  case (face img cap x y r fs old)
  from inv have r0: "rotation_var s \<in> {0, 90, 180, 270}" by (simp add: sampling_inv_def)
  from locate_rotation [OF r0 face(2)] have r: "r \<in> {0, 90, 180, 270}" .
  from dict_append_props [OF face(3)] face(4) have
    keys: "map fst fs = map fst (faces s)" and
    sub: "set (map snd fs) \<subseteq> insert (old @ [(x, y)]) (set (map snd (faces s)))"
    by auto
  from face(4) have "(r, old) \<in> set (faces s)" by (rule map_of_SomeD)
  then have "old \<in> set (map snd (faces s))" by force
  with inv have old2: "length old \<le> 2" by (auto simp: sampling_inv_def)
  from face(5) have "(r, old @ [(x, y)]) \<in> set fs" by (rule map_of_SomeD)
  then have new: "old @ [(x, y)] \<in> set (map snd fs)" by force
  then have nonempty: "\<not> (\<forall>obs\<in>set (map snd fs). obs = [])" by blast
  let ?s = "s\<lparr>capture := cap, rotation_var := r, faces := fs\<rparr>"
  have bound: "\<forall>obs\<in>set (map snd fs). length obs \<le> max 2 (length (old @ [(x, y)]))"
  proof
    fix obs assume "obs \<in> set (map snd fs)"
    with sub have "obs = old @ [(x, y)] \<or> obs \<in> set (map snd (faces s))" by blast
    with inv show "length obs \<le> max 2 (length (old @ [(x, y)]))"
      by (auto simp: sampling_inv_def)
  qed
  show ?thesis
  proof (cases "length (old @ [(x, y)]) > 2")
    case True
    with face(6) have out: "out = Break ?s" by simp
    from old2 bound have "\<forall>obs\<in>set (map snd fs). length obs \<le> 3" by fastforce
    with inv keys r nonempty show ?thesis
      by (auto simp add: out sampling_inv_def)
  next
    case False
    with face(6) have nf: "next_frame cv md ?s = Inr out" by simp
    from False bound have b2: "\<forall>obs\<in>set (map snd fs). length obs \<le> 2" by fastforce
    show ?thesis
    proof (cases out)
      case (Break s')
      with nf show ?thesis by (simp add: next_frame_no_Break)
    next
      case (Continue s')
      with nf next_frame_Continue [of cv md ?s s'] inv keys r nonempty b2 show ?thesis
        by (auto simp add: sampling_inv_def)
    qed
  qed
qed

lemma initial_inv: "sampling_inv 2 (initial_locals cap)"
  by (simp add: sampling_inv_def initial_locals_def)

lemma sampling_inv_mono: "sampling_inv 2 s \<Longrightarrow> sampling_inv 3 s"
  by (auto simp: sampling_inv_def)

lemma run_states_inv:
  "sampling_inv 2 s \<Longrightarrow> \<forall>s'\<in>set (run_states cv md n s). sampling_inv 3 s'"
proof (induction n arbitrary: s)
  case 0
  then show ?case by (simp add: sampling_inv_mono)
next
  case (Suc n)
  show ?case
  proof (cases "loop_body cv md s")
    case (Inl e)
    with Suc.prems show ?thesis by (simp add: sampling_inv_mono)
  next
    case (Inr out)
    from loop_body_inv [OF Suc.prems Inr] Suc.IH Suc.prems Inr show ?thesis
      by (cases out) (auto simp: sampling_inv_mono)
  qed
qed

lemma attempt_inv:
  "sampling_inv 2 s \<Longrightarrow> attempt cv md k s = Some s' \<Longrightarrow> sampling_inv 2 s'"
proof (induction cv md k s rule: attempt.induct)
  case (1 cv md s)
  then show ?case by simp
next
  case (2 cv md s)
  then show ?case by simp
next
  case (3 cv md k s)
  from "3.prems"(2) obtain s1 where
    b: "loop_body cv md s = Inr (Continue s1)" and a: "attempt cv md (Suc k) s1 = Some s'"
    by (auto split: sum.splits flow.splits)
  from loop_body_inv [OF "3.prems"(1) b] have "sampling_inv 2 s1" by simp
  from "3.IH" [OF b refl this a] show ?case .
qed

lemma sample_frames_inv:
  assumes run: "sample_frames cv md s = Some res"
  shows "sampling_inv 2 s \<longrightarrow> (\<forall>s'. res = Inr s' \<longrightarrow> sampling_inv 3 s')"
proof (rule sample_frames.raw_induct
    [where P = "\<lambda>cv md s res. sampling_inv 2 s \<longrightarrow> (\<forall>s'. res = Inr s' \<longrightarrow> sampling_inv 3 s')",
      OF _ run])
  fix f c m t out
  assume IH: "\<And>c m t out. f c m t = Some out \<Longrightarrow>
      sampling_inv 2 t \<longrightarrow> (\<forall>s'. out = Inr s' \<longrightarrow> sampling_inv 3 s')"
    and body: "(case loop_body c m t of
        Inl e \<Rightarrow> Some (Inl e)
      | Inr (Break s') \<Rightarrow> Some (Inr s')
      | Inr (Continue s') \<Rightarrow> f c m s') = Some out"
  show "sampling_inv 2 t \<longrightarrow> (\<forall>s'. out = Inr s' \<longrightarrow> sampling_inv 3 s')"
  proof (intro impI allI)
    fix s'
    assume inv: "sampling_inv 2 t" and res: "out = Inr s'"
    show "sampling_inv 3 s'"
    proof (cases "loop_body c m t")
      case (Inl e)
      with body res show ?thesis by simp
    next
      case (Inr fl)
      show ?thesis
      proof (cases fl)
        case (Break s1)
        with Inr body res loop_body_inv [OF inv Inr] show ?thesis by simp
      next
        case (Continue s1)
        with Inr body have "f c m s1 = Some out" by simp
        from IH [OF this] Continue loop_body_inv [OF inv Inr] res show ?thesis by simp
      qed
    qed
  qed
qed

lemma demo_locate_90:
  "snd (get_average_face_position_in_image demo_cv2 (90, [(x, 0, 2, 2)]) (IntArg 90)) =
     Inr (Some (x + 1, 1, 90))"
proof -
  have n: "gen_next (as_generator (IntArg 90)) = (Inr 90, Yielding [270, 180, 0])"
    by (simp add: as_generator_def rotation_generator_def rotates_def)
  have f: "faces_in_frame demo_cv2 (90, [(x, 0, 2, 2)]) 90 = Inr [(x, 0, 2, 2)]"
    by (simp add: faces_in_frame_def demo_cv2_def dict_get_def cv2_rotation_consts_def code_angle_def)
  have r: "py_round (of_int x + 1) = x + 1" "py_round 1 = 1"
    by (simp_all add: py_round_def Let_def)
  from locate_found [OF n f] show ?thesis
    by (simp add: center_mean_def r)
qed

lemma demo_locate_0:
  "get_average_face_position_in_image demo_cv2 (90, [(x, 0, 2, 2)]) (IntArg 0) =
     ([0, 90], Inr (Some (x + 1, 1, 90)))"
proof -
  have n: "gen_next (as_generator (IntArg 0)) = gen_next (as_generator (GenArg (Yielding [0, 90, 270, 180])))"
    by (simp add: as_generator_def rotation_generator_def rotates_def)
  have f: "faces_in_frame demo_cv2 (90, [(x, 0, 2, 2)]) 90 = Inr [(x, 0, 2, 2)]"
    "faces_in_frame demo_cv2 (90, [(x, 0, 2, 2)]) 0 = Inr []"
    by (simp_all add: faces_in_frame_def demo_cv2_def dict_get_def cv2_rotation_consts_def code_angle_def)
  have r: "py_round (of_int x + 1) = x + 1" "py_round 1 = 1"
    by (simp_all add: py_round_def Let_def)
  show ?thesis
    unfolding locate_cong [OF n]
    by (simp add: locate_Cons f average_center_eq center_mean_def r)
qed

lemma demo_body:
  assumes "fps m = 2"
  shows "loop_body demo_cv2 (Some m) (demo_state 0) = Inr (Continue (demo_state 1))"
    and "loop_body demo_cv2 (Some m) (demo_state 1) = Inr (Continue (demo_state 2))"
    and "loop_body demo_cv2 (Some m) (demo_state 2) = Inr (Break (demo_state 3))"
  using assms
  by (simp_all add: loop_body_def demo_state_def demo_cv2_def demo_clip_def
      demo_locate_0 [unfolded demo_cv2_def] demo_locate_90 [unfolded demo_cv2_def]
      dict_get_def next_frame_def)

lemma demo_initial: "initial_locals (demo_clip, 0) = demo_state 0"
  by (simp add: initial_locals_def demo_state_def)

lemma demo_run:
  assumes "fps m = 2"
  shows "sample_frames demo_cv2 (Some m) (initial_locals (demo_clip, 0)) = Some (Inr (demo_state 3))"
proof -
  have "sample_frames demo_cv2 (Some m) (demo_state 0) =
        sample_frames demo_cv2 (Some m) (demo_state 1)"
    by (subst sample_frames.simps) (simp add: demo_body(1) [OF assms])
  also have "\<dots> = sample_frames demo_cv2 (Some m) (demo_state 2)"
    by (subst sample_frames.simps) (simp add: demo_body(2) [OF assms])
  also have "\<dots> = Some (Inr (demo_state 3))"
    by (subst sample_frames.simps) (simp add: demo_body(3) [OF assms])
  finally show ?thesis
    by (simp only: demo_initial)
qed

lemma sample_frames_initial_inv:
  "sample_frames cv md (initial_locals cap) = Some (Inr s) \<Longrightarrow> sampling_inv 3 s"
  using sample_frames_inv [of cv md "initial_locals cap" "Inr s"] initial_inv [of cap]
  by blast

text \<open>
  C8. No list of observations ever holds more than 3 entries: in every state a run
  passes through (the head of each iteration and the state in which the loop is left)
  every list has at most 3 entries; an attempt only starts while every list has at most
  2, so the loop is left as soon as a list reaches 3; and when the loop returns, every
  list, the one of the winning rotation among them, has at most 3 entries.
\<close>

theorem observations_bounded:
  "(\<forall>s\<in>set (run_states cv md n (initial_locals cap)).
      \<forall>obs\<in>set (map snd (faces s)). length obs \<le> 3) \<and>
   (\<forall>s. attempt cv md k (initial_locals cap) = Some s \<longrightarrow>
      (\<forall>obs\<in>set (map snd (faces s)). length obs \<le> 2)) \<and>
   (\<forall>s. sample_frames cv md (initial_locals cap) = Some (Inr s) \<longrightarrow>
      (\<forall>obs\<in>set (map snd (faces s)). length obs \<le> 3) \<and>
      (\<forall>obs. dict_get (faces s) (winning_rotation s) = Inr obs \<longrightarrow> length obs \<le> 3))"
proof (intro conjI allI impI)
  from run_states_inv [OF initial_inv, of cv md n cap]
  show "\<forall>s\<in>set (run_states cv md n (initial_locals cap)).
      \<forall>obs\<in>set (map snd (faces s)). length obs \<le> 3"
    by (simp add: sampling_inv_def)
next
  fix s assume "attempt cv md k (initial_locals cap) = Some s"
  from attempt_inv [OF initial_inv this]
  show "\<forall>obs\<in>set (map snd (faces s)). length obs \<le> 2"
    by (simp add: sampling_inv_def)
next
  fix s assume "sample_frames cv md (initial_locals cap) = Some (Inr s)"
  from sample_frames_initial_inv [OF this]
  show "\<forall>obs\<in>set (map snd (faces s)). length obs \<le> 3"
    by (simp add: sampling_inv_def)
next
  fix s obs
  assume "sample_frames cv md (initial_locals cap) = Some (Inr s)"
    and g: "dict_get (faces s) (winning_rotation s) = Inr obs"
  from sample_frames_initial_inv [OF this(1)]
  have b: "\<forall>obs\<in>set (map snd (faces s)). length obs \<le> 3"
    by (simp add: sampling_inv_def)
  from g have "map_of (faces s) (winning_rotation s) = Some obs"
    by (simp add: dict_get_def split: option.splits)
  then have "(winning_rotation s, obs) \<in> set (faces s)" by (rule map_of_SomeD)
  then have "obs \<in> set (map snd (faces s))" by force
  with b show "length obs \<le> 3" by blast
qed

lemma demo_run_states:
  "fps m = 2 \<Longrightarrow> run_states demo_cv2 (Some m) 3 (initial_locals (demo_clip, 0)) =
     [demo_state 0, demo_state 1, demo_state 2, demo_state 3]"
  by (simp add: demo_initial eval_nat_numeral demo_body)

lemma demo_attempt:
  "fps m = 2 \<Longrightarrow> attempt demo_cv2 (Some m) 2 (initial_locals (demo_clip, 0)) = Some (demo_state 1)"
  "fps m = 2 \<Longrightarrow> attempt demo_cv2 (Some m) 3 (initial_locals (demo_clip, 0)) = Some (demo_state 2)"
  by (simp_all add: demo_initial eval_nat_numeral demo_body)

theorem observations_bounded_witness:
  "run_states demo_cv2 (Some demo_metadata) 3 (initial_locals (demo_clip, 0)) =
     [demo_state 0, demo_state 1, demo_state 2, demo_state 3] \<and>
   map (\<lambda>s. map (length \<circ> snd) (faces s)) [demo_state 0, demo_state 1, demo_state 2, demo_state 3] =
     [[0, 0, 0, 0], [0, 1, 0, 0], [0, 2, 0, 0], [0, 3, 0, 0]] \<and>
   attempt demo_cv2 (Some demo_metadata) 3 (initial_locals (demo_clip, 0)) = Some (demo_state 2) \<and>
   sample_frames demo_cv2 (Some demo_metadata) (initial_locals (demo_clip, 0)) = Some (Inr (demo_state 3)) \<and>
   dict_get (faces (demo_state 3)) (winning_rotation (demo_state 3)) = Inr [(101, 1), (501, 1), (1101, 1)]"
  using observations_bounded [of demo_cv2 "Some demo_metadata" 3 "(demo_clip, 0)" 3]
  by (simp add: demo_run_states demo_attempt demo_run demo_metadata_def)
    (simp add: demo_state_def winning_rotation_def dict_get_def)






lemma faces_shape:
  assumes "map fst d = [0, 90, 180, 270]"
  obtains a b c e where "d = [(0::int, a), (90, b), (180, c), (270, e)]"
proof -
  have "length d = length (map fst d)" by simp
  also from assms have "\<dots> = 4" by simp
  finally obtain p q r t where d: "d = [p, q, r, t]"
    by (auto simp: length_Suc_conv eval_nat_numeral)
  with assms that [of "snd p" "snd q" "snd r" "snd t"] show thesis
    by (cases p; cases q; cases r; cases t) auto
qed





lemma no_observations_error:
  assumes "\<forall>obs\<in>set (map snd (faces s)). obs = []" and "sampling_inv n s"
  shows "after_loop (Some m) s = Inl ZeroDivisionError"
proof -
  from assms(2) have keys: "map fst (faces s) = [0, 90, 180, 270]"
    by (simp add: sampling_inv_def)
  from keys obtain a b c e where d: "faces s = [(0, a), (90, b), (180, c), (270, e)]"
    by (rule faces_shape)
  from assms d show ?thesis
    by (simp add: after_loop_def winning_rotation_def sampling_inv_def dict_get_def
        average_cell_def py_truediv_def)
qed




subsection \<open>The grid\<close>


lemma clip_size_canonical:
  "clip_size m 0 = (width m, height m)" "clip_size m 90 = (height m, width m)"
  "clip_size m 180 = (width m, height m)" "clip_size m 270 = (height m, width m)"
  by (simp_all add: clip_size_def py_fmod_def)



lemma cell_range:
  "ls \<noteq> [] \<Longrightarrow> of_int v \<le> last ls \<Longrightarrow> i < cell ls i v \<and> cell ls i v \<le> i + int (length ls)"
proof (induction ls arbitrary: i)
  case Nil
  then show ?case by simp
next
  case (Cons l ls)
  show ?case
  proof (cases "of_int v \<le> l")
    case True
    then show ?thesis by simp
  next
    case False
    with Cons.prems have "ls \<noteq> []" "of_int v \<le> last ls" by (auto split: if_splits)
    from Cons.IH [OF this, of "i + 1"] False show ?thesis by simp
  qed
qed

lemma cell_zero: "\<forall>l\<in>set ls. l < of_int v \<Longrightarrow> cell ls i v = 0"
  by (induction ls arbitrary: i) auto

lemma sum_cells_eq:
  "sum_cells ls obs (ax, ay, n) =
     (ax + (\<Sum>p\<leftarrow>obs. cell (fst ls) 0 (fst p)),
      ay + (\<Sum>p\<leftarrow>obs. cell (snd ls) 0 (snd p)),
      n + int (length obs))"
  by (induction obs arbitrary: ax ay n) (auto simp: Let_def)

lemma sum_list_between:
  "\<forall>p\<in>set obs. 1 \<le> f p \<and> f p \<le> (3::int) \<Longrightarrow>
   int (length obs) \<le> (\<Sum>p\<leftarrow>obs. f p) \<and> (\<Sum>p\<leftarrow>obs. f p) \<le> 3 * int (length obs)"
  by (induction obs) auto

lemma py_round_range:
  assumes "1 \<le> q" and "q \<le> 3"
  shows "py_round q \<in> {1, 2, 3}"
proof -
  from assms have f: "1 \<le> \<lfloor>q\<rfloor>" "\<lfloor>q\<rfloor> \<le> 3" by (simp_all add: le_floor_iff floor_le_iff)
  show ?thesis
  proof (cases "\<lfloor>q\<rfloor> = 3")
    case True
    with assms have "q = 3" by linarith
    then show ?thesis by (simp add: py_round_def)
  next
    case False
    with f have "\<lfloor>q\<rfloor> = 1 \<or> \<lfloor>q\<rfloor> = 2" by linarith
    then show ?thesis by (auto simp add: py_round_def Let_def)
  qed
qed

lemma mean_range:
  assumes "obs \<noteq> []" and "\<forall>p\<in>set obs. 1 \<le> f p \<and> f p \<le> (3::int)"
  shows "py_round (of_int (\<Sum>p\<leftarrow>obs. f p) / of_int (int (length obs))) \<in> {1, 2, 3}"
proof (rule py_round_range)
  from assms(1) have n: "0 < (of_int (int (length obs)) :: real)" by simp
  from sum_list_between [OF assms(2)] have
    a: "int (length obs) \<le> (\<Sum>p\<leftarrow>obs. f p)" "(\<Sum>p\<leftarrow>obs. f p) \<le> 3 * int (length obs)"
    by simp_all
  from a(1) have "(of_int (int (length obs)) :: real) \<le> of_int (\<Sum>p\<leftarrow>obs. f p)"
    by (rule iffD2 [OF of_int_le_iff])
  moreover from a(2) have "(of_int (\<Sum>p\<leftarrow>obs. f p) :: real) \<le> of_int (3 * int (length obs))"
    by (rule iffD2 [OF of_int_le_iff])
  then have "(of_int (\<Sum>p\<leftarrow>obs. f p) :: real) \<le> 3 * of_int (int (length obs))"
    by simp
  ultimately have "(of_int (int (length obs)) :: real) \<le> of_int (\<Sum>p\<leftarrow>obs. f p)"
    "(of_int (\<Sum>p\<leftarrow>obs. f p) :: real) \<le> 3 * of_int (int (length obs))"
    by blast+
  with n show "1 \<le> real_of_int (\<Sum>p\<leftarrow>obs. f p) / real_of_int (int (length obs))"
    "real_of_int (\<Sum>p\<leftarrow>obs. f p) / real_of_int (int (length obs)) \<le> 3"
    by (simp_all add: le_divide_eq divide_le_eq)
qed

lemma after_loop_eq:
  assumes "dict_get (faces s) (winning_rotation s) = Inr obs" and "obs \<noteq> []"
    and "ls = lines (clip_size m (winning_rotation s))"
  shows "after_loop (Some m) s =
         Inr (py_round (of_int (\<Sum>p\<leftarrow>obs. cell (fst ls) 0 (fst p)) / of_int (int (length obs))),
              py_round (of_int (\<Sum>p\<leftarrow>obs. cell (snd ls) 0 (snd p)) / of_int (int (length obs))),
              winning_rotation s)"
  using assms
  by (simp add: after_loop_def Let_def sum_cells_eq average_cell_def py_truediv_def)

lemma lines_last:
  "fst (lines (w, h)) \<noteq> [] \<and> snd (lines (w, h)) \<noteq> [] \<and>
   last (fst (lines (w, h))) = of_int w \<and> last (snd (lines (w, h))) = of_int h \<and>
   length (fst (lines (w, h))) = 3 \<and> length (snd (lines (w, h))) = 3"
  by (simp add: lines_def)

text \<open>
  C10. When the sampling loop returns and the winning rotation has observations, the
  function returns, for each coordinate, the rounded mean over all these observations of
  the number of their cell; both numbers are among 1, 2, 3 when no observation lies beyond
  \<open>(clip_w, clip_h)\<close>. An observation whose coordinate exceeds every line of the grid is
  counted like the others, with the cell number 0.
\<close>

theorem bucket_coordinates_range:
  assumes run: "sample_frames cv (Some m) (initial_locals cap) = Some (Inr s)"
    and obs: "dict_get (faces s) (winning_rotation s) = Inr obs" "obs \<noteq> []"
    and ls: "ls = lines (clip_size m (winning_rotation s))"
  shows "get_average_faces_position_in_clip cv (Some m) cap =
           Some (Inr (py_round (of_int (\<Sum>p\<leftarrow>obs. cell (fst ls) 0 (fst p)) / of_int (int (length obs))),
                      py_round (of_int (\<Sum>p\<leftarrow>obs. cell (snd ls) 0 (snd p)) / of_int (int (length obs))),
                      winning_rotation s)) \<and>
         ((\<forall>p\<in>set obs. fst p \<le> fst (clip_size m (winning_rotation s)) \<and>
                        snd p \<le> snd (clip_size m (winning_rotation s))) \<longrightarrow>
          (\<exists>bx by. get_average_faces_position_in_clip cv (Some m) cap =
                      Some (Inr (bx, by, winning_rotation s)) \<and>
                    bx \<in> {1, 2, 3} \<and> by \<in> {1, 2, 3})) \<and>
         (\<forall>v. (\<forall>l\<in>set (fst ls). l < of_int v) \<longrightarrow> cell (fst ls) 0 v = 0) \<and>
         (\<forall>v. (\<forall>l\<in>set (snd ls). l < of_int v) \<longrightarrow> cell (snd ls) 0 v = 0)"
proof (intro conjI allI impI)
  have res: "get_average_faces_position_in_clip cv (Some m) cap = Some (after_loop (Some m) s)"
    by (simp add: get_average_faces_position_in_clip_def run)
  show eq: "get_average_faces_position_in_clip cv (Some m) cap =
           Some (Inr (py_round (of_int (\<Sum>p\<leftarrow>obs. cell (fst ls) 0 (fst p)) / of_int (int (length obs))),
                      py_round (of_int (\<Sum>p\<leftarrow>obs. cell (snd ls) 0 (snd p)) / of_int (int (length obs))),
                      winning_rotation s))"
    by (simp only: res after_loop_eq [OF obs ls])
  assume inside: "\<forall>p\<in>set obs. fst p \<le> fst (clip_size m (winning_rotation s)) \<and>
                        snd p \<le> snd (clip_size m (winning_rotation s))"
  obtain w h where wh: "clip_size m (winning_rotation s) = (w, h)"
    by (cases "clip_size m (winning_rotation s)")
  have "\<forall>p\<in>set obs. 1 \<le> cell (fst ls) 0 (fst p) \<and> cell (fst ls) 0 (fst p) \<le> 3"
  proof
    fix p assume "p \<in> set obs"
    with inside wh have "(of_int (fst p) :: real) \<le> last (fst ls)"
      by (simp add: ls lines_last)
    from cell_range [OF _ this, of 0] show "1 \<le> cell (fst ls) 0 (fst p) \<and> cell (fst ls) 0 (fst p) \<le> 3"
      by (simp add: ls wh lines_last)
  qed
  from mean_range [OF obs(2) this]
  have x: "py_round (of_int (\<Sum>p\<leftarrow>obs. cell (fst ls) 0 (fst p)) / of_int (int (length obs))) \<in> {1, 2, 3}" .
  have "\<forall>p\<in>set obs. 1 \<le> cell (snd ls) 0 (snd p) \<and> cell (snd ls) 0 (snd p) \<le> 3"
  proof
    fix p assume "p \<in> set obs"
    with inside wh have "(of_int (snd p) :: real) \<le> last (snd ls)"
      by (simp add: ls lines_last)
    from cell_range [OF _ this, of 0] show "1 \<le> cell (snd ls) 0 (snd p) \<and> cell (snd ls) 0 (snd p) \<le> 3"
      by (simp add: ls wh lines_last)
  qed
  from mean_range [OF obs(2) this]
  have y: "py_round (of_int (\<Sum>p\<leftarrow>obs. cell (snd ls) 0 (snd p)) / of_int (int (length obs))) \<in> {1, 2, 3}" .
  from eq x y show "\<exists>bx by. get_average_faces_position_in_clip cv (Some m) cap =
                      Some (Inr (bx, by, winning_rotation s)) \<and>
                    bx \<in> {1, 2, 3} \<and> by \<in> {1, 2, 3}"
    by blast
next
  fix v assume "\<forall>l\<in>set (fst ls). l < of_int v"
  then show "cell (fst ls) 0 v = 0" by (rule cell_zero)
next
  fix v assume "\<forall>l\<in>set (snd ls). l < of_int v"
  then show "cell (snd ls) 0 v = 0" by (rule cell_zero)
qed


theorem bucket_coordinates_range_witness:
  "sample_frames demo_cv2 (Some (demo_metadata\<lparr>height := 1200\<rparr>)) (initial_locals (demo_clip, 0)) =
     Some (Inr (demo_state 3)) \<and>
   dict_get (faces (demo_state 3)) (winning_rotation (demo_state 3)) =
     Inr [(101, 1), (501, 1), (1101, 1)] \<and>
   clip_size (demo_metadata\<lparr>height := 1200\<rparr>) (winning_rotation (demo_state 3)) = (1200, 1920) \<and>
   get_average_faces_position_in_clip demo_cv2 (Some (demo_metadata\<lparr>height := 1200\<rparr>)) (demo_clip, 0) =
     Some (Inr (2, 1, 90)) \<and>
   clip_size demo_metadata (winning_rotation (demo_state 3)) = (1080, 1920) \<and>
   cell (fst (lines (1080, 1920))) 0 1101 = 0 \<and>
   get_average_faces_position_in_clip demo_cv2 (Some demo_metadata) (demo_clip, 0) =
     Some (Inr (1, 1, 90))"
proof -
  have a: "sample_frames demo_cv2 (Some (demo_metadata\<lparr>height := 1200\<rparr>)) (initial_locals (demo_clip, 0)) =
     Some (Inr (demo_state 3))"
    by (simp add: demo_run demo_metadata_def)
  have b: "sample_frames demo_cv2 (Some demo_metadata) (initial_locals (demo_clip, 0)) =
     Some (Inr (demo_state 3))"
    by (simp add: demo_run demo_metadata_def)
  have w: "winning_rotation (demo_state 3) = 90"
    by (simp add: winning_rotation_def demo_state_def)
  have o: "dict_get (faces (demo_state 3)) (winning_rotation (demo_state 3)) =
     Inr [(101, 1), (501, 1), (1101, 1)]"
    by (simp add: w) (simp add: demo_state_def dict_get_def)
  have n: "[(101, 1), (501, 1), (1101, 1)] \<noteq> ([] :: (int \<times> int) list)"
    by simp
  have c: "clip_size (demo_metadata\<lparr>height := 1200\<rparr>) 90 = (1200, 1920)"
    "clip_size demo_metadata 90 = (1080, 1920)"
    by (simp_all add: clip_size_canonical demo_metadata_def)
  from bucket_coordinates_range [OF a o n refl] bucket_coordinates_range [OF b o n refl] a o
  show ?thesis
    by (simp add: w c lines_def py_round_def Let_def)
qed

end
